theory Spec2Isabelle
  imports Complex_Main "HOL-Library.Product_Lexorder"
begin

section \<open>Data model\<close>

text \<open>
  Shallow embedding of \<^verbatim>\<open>pyannote/metrics/segmentation.py\<close>.
  Python floats (timestamps, durations, tolerances, rates) are modelled as reals, so
  rounding is not part of the model; \<^verbatim>\<open>np.inf\<close> is a constructor of its own.
\<close>

record segment =
  seg_start :: real
  seg_end :: real

type_synonym timeline = "segment list"

type_synonym 'l annotation = "(segment \<times> 'l) list"

datatype 'l segmentation = Timeline timeline | Annotation "'l annotation"

datatype error = TypeError | ValueError | ZeroDivisionError

definition duration :: "segment \<Rightarrow> real" where
  "duration s = seg_end s - seg_start s"

definition seg_key :: "segment \<Rightarrow> real \<times> real" where
  "seg_key s = (seg_start s, seg_end s)"

definition get_timeline :: "'l annotation \<Rightarrow> timeline" where
  \<comment> \<open>Modelled from the spec: \<^verbatim>\<open>Annotation.get_timeline\<close> of pyannote.core, absent from
      the sources: the segments of the annotation, labels discarded, as a sorted set.\<close>
  "get_timeline a = sort_key seg_key (remdups (map fst a))"

subsection \<open>Floats with \<^verbatim>\<open>np.inf\<close>\<close>

datatype npfloat = Float real | np_inf

instantiation npfloat :: linorder
begin

fun less_eq_npfloat :: "npfloat \<Rightarrow> npfloat \<Rightarrow> bool" where
  "less_eq_npfloat (Float a) (Float b) = (a \<le> b)"
| "less_eq_npfloat (Float a) np_inf = True"
| "less_eq_npfloat np_inf (Float b) = False"
| "less_eq_npfloat np_inf np_inf = True"

definition less_npfloat :: "npfloat \<Rightarrow> npfloat \<Rightarrow> bool" where
  "less_npfloat x y = (x \<le> y \<and> \<not> y \<le> x)"

instance
proof
  fix x y z :: npfloat
  show "(x < y) = (x \<le> y \<and> \<not> y \<le> x)"
    by (simp add: less_npfloat_def)
  show "x \<le> x"
    by (cases x) simp_all
  show "x \<le> y \<Longrightarrow> y \<le> z \<Longrightarrow> x \<le> z"
    by (cases x; cases y; cases z) simp_all
  show "x \<le> y \<Longrightarrow> y \<le> x \<Longrightarrow> x = y"
    by (cases x; cases y) simp_all
  show "x \<le> y \<or> y \<le> x"
    by (cases x; cases y) auto
qed

end

subsection \<open>The numpy operations used by the Boundary Matcher\<close>

text \<open>
  The \<open>N \<times> M\<close> array \<^verbatim>\<open>delta\<close> is kept as numpy keeps it: one flat list in row-major
  order, cell \<open>(r, h)\<close> at index \<open>r * M + h\<close>.
\<close>

fun amin :: "npfloat list \<Rightarrow> npfloat" where
  \<comment> \<open>\<^verbatim>\<open>np.amin\<close>; the array is never empty where the source calls it.\<close>
  "amin [] = np_inf"
| "amin (x # xs) = min x (amin xs)"

definition argmin :: "npfloat list \<Rightarrow> nat" where
  \<comment> \<open>\<^verbatim>\<open>np.argmin\<close>: the flat index of the first occurrence of the minimum.\<close>
  "argmin d = length (takeWhile (\<lambda>x. x \<noteq> amin d) d)"

definition set_row :: "nat \<Rightarrow> nat \<Rightarrow> npfloat list \<Rightarrow> npfloat list" where
  \<comment> \<open>\<^verbatim>\<open>delta[i, :] = np.inf\<close>\<close>
  "set_row M i d = map (\<lambda>(p, x). if p div M = i then np_inf else x) (enumerate 0 d)"

definition set_col :: "nat \<Rightarrow> nat \<Rightarrow> npfloat list \<Rightarrow> npfloat list" where
  \<comment> \<open>\<^verbatim>\<open>delta[:, j] = np.inf\<close>\<close>
  "set_col M j d = map (\<lambda>(p, x). if p mod M = j then np_inf else x) (enumerate 0 d)"

definition finite_entries :: "npfloat list \<Rightarrow> nat" where
  "finite_entries d = length (filter (\<lambda>x. x < np_inf) d)"

definition build_delta :: "real list \<Rightarrow> real list \<Rightarrow> npfloat list" where
  \<comment> \<open>\<^verbatim>\<open>delta[r, h] = abs(refBoundary - hypBoundary)\<close> for every pair, rows first\<close>
  "build_delta refBoundaries hypBoundaries =
     map (\<lambda>(refBoundary, hypBoundary). Float \<bar>refBoundary - hypBoundary\<bar>)
       (List.product refBoundaries hypBoundaries)"

definition mask_far :: "real \<Rightarrow> npfloat list \<Rightarrow> npfloat list" where
  \<comment> \<open>\<^verbatim>\<open>delta[np.where(delta > self.tolerance)] = np.inf\<close>\<close>
  "mask_far tolerance d = map (\<lambda>x. if x > Float tolerance then np_inf else x) d"

section \<open>Helper lemmas on the array operations\<close>

lemma npfloat_less_inf: "(x < np_inf) = (x \<noteq> np_inf)"
  by (cases x) (simp_all add: less_npfloat_def)

lemma npfloat_le_inf: "x \<le> np_inf"
  by (cases x) simp_all

lemma Float_less_iff: "(Float a < Float b) = (a < b)"
  by (auto simp: less_npfloat_def)

lemma np_inf_not_less: "\<not> np_inf < x"
  by (cases x) (simp_all add: less_npfloat_def)

lemma amin_le: "x \<in> set d \<Longrightarrow> amin d \<le> x"
  by (induction d) (auto simp: min_le_iff_disj)

lemma amin_mem: "d \<noteq> [] \<Longrightarrow> amin d \<in> set d"
proof (induction d)
  case Nil
  then show ?case by simp
next
  case (Cons x xs)
  show ?case
  proof (cases "xs = []")
    case True
    then show ?thesis by (simp add: min_def npfloat_le_inf)
  next
    case False
    with Cons show ?thesis by (auto simp: min_def)
  qed
qed

lemma amin_finite_nonempty: "amin d < np_inf \<Longrightarrow> d \<noteq> []"
  by (auto simp: npfloat_less_inf)

lemma takeWhile_neq_less: "a \<in> set d \<Longrightarrow> length (takeWhile (\<lambda>x. x \<noteq> a) d) < length d"
  by (induction d) auto

lemma argmin_less: "amin d < np_inf \<Longrightarrow> argmin d < length d"
  unfolding argmin_def
  by (rule takeWhile_neq_less) (simp add: amin_finite_nonempty amin_mem)

lemma argmin_nth: "amin d < np_inf \<Longrightarrow> d ! argmin d = amin d"
  using argmin_less [of d] nth_length_takeWhile [of "\<lambda>x. x \<noteq> amin d" d]
  by (simp add: argmin_def)


lemma length_set_row [simp]: "length (set_row M i d) = length d"
  by (simp add: set_row_def)

lemma length_set_col [simp]: "length (set_col M j d) = length d"
  by (simp add: set_col_def)

lemma nth_set_row:
  "p < length d \<Longrightarrow> set_row M i d ! p = (if p div M = i then np_inf else d ! p)"
  by (simp add: set_row_def nth_enumerate_eq)

lemma nth_set_col:
  "p < length d \<Longrightarrow> set_col M j d ! p = (if p mod M = j then np_inf else d ! p)"
  by (simp add: set_col_def nth_enumerate_eq)

lemma nth_set_col_row:
  "p < length d \<Longrightarrow> set_col M j (set_row M i d) ! p =
     (if p div M = i \<or> p mod M = j then np_inf else d ! p)"
  by (simp add: nth_set_col nth_set_row)

lemma finite_entries_card:
  "finite_entries d = card {p. p < length d \<and> d ! p \<noteq> np_inf}"
  by (simp add: finite_entries_def length_filter_conv_card npfloat_less_inf)

lemma finite_entries_decrease:
  assumes "amin d < np_inf"
  shows "finite_entries (set_col M j (set_row M (argmin d div M) d)) < finite_entries d"
proof -
  let ?d' = "set_col M j (set_row M (argmin d div M) d)"
  let ?A = "{p. p < length d \<and> d ! p \<noteq> np_inf}"
  let ?B = "{p. p < length ?d' \<and> ?d' ! p \<noteq> np_inf}"
  have k: "argmin d < length d" and v: "d ! argmin d \<noteq> np_inf"
    using assms by (simp_all add: argmin_less argmin_nth npfloat_less_inf)
  have "?B \<subseteq> ?A"
    by (auto simp: nth_set_col_row split: if_splits)
  moreover have "argmin d \<in> ?A" using k v by simp
  moreover have "argmin d \<notin> ?B" using k by (simp add: nth_set_col_row)
  ultimately have "?B \<subset> ?A" by blast
  moreover have "finite ?A" by simp
  ultimately have "card ?B < card ?A" by (rule psubset_card_mono [rotated])
  then show ?thesis by (simp only: finite_entries_card)
qed

section \<open>SegmentationPrecision and SegmentationRecall\<close>

record detail =
  PR_MATCHES :: real
  PR_BOUNDARIES :: int

function greedy_loop :: "nat \<Rightarrow> real \<Rightarrow> npfloat list \<Rightarrow> real" where
  \<comment> \<open>The \<^verbatim>\<open>while h < np.inf\<close> loop; \<^verbatim>\<open>k / M\<close> is the integer division of Python 2,
      the language of the source (its doctests fail otherwise).\<close>
  "greedy_loop M nMatches delta =
     (if amin delta < np_inf then
        (let k = argmin delta; i = k div M; j = k mod M
         in greedy_loop M (nMatches + 1) (set_col M j (set_row M i delta)))
      else nMatches)"
  by pat_completeness auto
termination
  by (relation "measure (\<lambda>(M, nMatches, delta). finite_entries delta)")
    (simp_all add: finite_entries_decrease)

declare greedy_loop.simps [simp del]

function greedy_trace :: "nat \<Rightarrow> npfloat list \<Rightarrow> (nat \<times> nat) list" where
  \<comment> \<open>The same loop, recording the cell \<open>(i, j)\<close> chosen by each iteration instead of
      counting; \<open>greedy_loop_trace\<close> below relates the two.\<close>
  "greedy_trace M delta =
     (if amin delta < np_inf then
        (let k = argmin delta; i = k div M; j = k mod M
         in (i, j) # greedy_trace M (set_col M j (set_row M i delta)))
      else [])"
  by pat_completeness auto
termination
  by (relation "measure (\<lambda>(M, delta). finite_entries delta)")
    (simp_all add: finite_entries_decrease)

declare greedy_trace.simps [simp del]

definition boundaries :: "timeline \<Rightarrow> real list" where
  \<comment> \<open>\<^verbatim>\<open>[segment.end for segment in timeline][:-1]\<close>\<close>
  "boundaries t = butlast (map seg_end t)"

fun as_timeline :: "'l segmentation \<Rightarrow> timeline" where
  "as_timeline (Timeline t) = t"
| "as_timeline (Annotation a) = get_timeline a"

definition get_details :: "real \<Rightarrow> 'l segmentation \<Rightarrow> 'l segmentation \<Rightarrow> error + detail" where
  \<comment> \<open>\<^verbatim>\<open>SegmentationPrecision._get_details\<close>. An empty timeline has \<^verbatim>\<open>len\<close> 0, so its
      boundary count is \<open>-1\<close>; \<^verbatim>\<open>np.zeros((N, M))\<close> raises ValueError on a negative
      dimension.\<close>
  "get_details tolerance reference hypothesis =
     (let reference = as_timeline reference;
          hypothesis = as_timeline hypothesis;
          N = int (length reference) - 1;
          M = int (length hypothesis) - 1
      in if M = 0 \<or> N = 0 then Inr \<lparr>PR_MATCHES = 0, PR_BOUNDARIES = M\<rparr>
         else
           let refBoundaries = boundaries reference;
               hypBoundaries = boundaries hypothesis
           in if N < 0 \<or> M < 0 then Inl ValueError
              else Inr \<lparr>PR_MATCHES =
                          greedy_loop (nat M) 0
                            (mask_far tolerance (build_delta refBoundaries hypBoundaries)),
                        PR_BOUNDARIES = M\<rparr>)"

definition recall_get_details ::
    "real \<Rightarrow> 'l segmentation \<Rightarrow> 'l segmentation \<Rightarrow> error + detail" where
  \<comment> \<open>\<^verbatim>\<open>SegmentationRecall._get_details\<close>\<close>
  "recall_get_details tolerance reference hypothesis =
     get_details tolerance hypothesis reference"

definition get_rate :: "detail \<Rightarrow> error + real" where
  \<comment> \<open>\<^verbatim>\<open>SegmentationPrecision._get_rate\<close>, inherited by SegmentationRecall\<close>
  "get_rate detail =
     (let numerator = PR_MATCHES detail;
          denominator = PR_BOUNDARIES detail
      in if denominator = 0 then
           (if numerator = 0 then Inr 1 else Inl ValueError)
         else Inr (numerator / real_of_int denominator))"

definition precision :: "real \<Rightarrow> 'l segmentation \<Rightarrow> 'l segmentation \<Rightarrow> error + real" where
  \<comment> \<open>Modelled from the spec: calling a metric (\<^verbatim>\<open>BaseMetric.__call__\<close>, absent from the
      sources) computes the details of the pair, then their rate.\<close>
  "precision tolerance reference hypothesis =
     (case get_details tolerance reference hypothesis of
        Inl e \<Rightarrow> Inl e | Inr detail \<Rightarrow> get_rate detail)"

definition recall :: "real \<Rightarrow> 'l segmentation \<Rightarrow> 'l segmentation \<Rightarrow> error + real" where
  "recall tolerance reference hypothesis =
     (case recall_get_details tolerance reference hypothesis of
        Inl e \<Rightarrow> Inl e | Inr detail \<Rightarrow> get_rate detail)"

definition seg :: "real \<Rightarrow> real \<Rightarrow> segment" where
  \<comment> \<open>\<^verbatim>\<open>Segment(start, end)\<close>\<close>
  "seg a b = \<lparr>seg_start = a, seg_end = b\<rparr>"

definition next_delta :: "nat \<Rightarrow> npfloat list \<Rightarrow> npfloat list" where
  \<comment> \<open>The array after one iteration of the loop body.\<close>
  "next_delta M d = set_col M (argmin d mod M) (set_row M (argmin d div M) d)"

definition matched_pairs :: "real \<Rightarrow> timeline \<Rightarrow> timeline \<Rightarrow> (nat \<times> nat) list" where
  \<comment> \<open>The cells chosen by the loop that \<open>get_details\<close> runs, in the order of the iterations:
      \<open>(i, j)\<close> pairs reference boundary \<open>i\<close> with hypothesis boundary \<open>j\<close>.\<close>
  "matched_pairs tolerance reference hypothesis =
     greedy_trace (length (boundaries hypothesis))
       (mask_far tolerance (build_delta (boundaries reference) (boundaries hypothesis)))"

fun greedy_fuel :: "nat \<Rightarrow> nat \<Rightarrow> real \<Rightarrow> npfloat list \<Rightarrow> real option" where
  \<comment> \<open>The loop with a budget of iterations: \<open>None\<close> when the budget runs out before the
      loop condition fails.\<close>
  "greedy_fuel 0 M nMatches delta = (if amin delta < np_inf then None else Some nMatches)"
| "greedy_fuel (Suc fuel) M nMatches delta =
     (if amin delta < np_inf then
        (let k = argmin delta; i = k div M; j = k mod M
         in greedy_fuel fuel M (nMatches + 1) (set_col M j (set_row M i delta)))
      else Some nMatches)"

definition reference_3 :: "unit segmentation" where
  \<comment> \<open>The reference of the doctests: \<^verbatim>\<open>Segment(0, 1), Segment(1, 2), Segment(2, 4)\<close>\<close>
  "reference_3 = Timeline [seg 0 1, seg 1 2, seg 2 4]"

definition hypothesis_4 :: "unit segmentation" where
  \<comment> \<open>The first hypothesis of the doctests\<close>
  "hypothesis_4 = Timeline [seg 0 1, seg 1 2, seg 2 3, seg 3 4]"

definition hypothesis_1 :: "unit segmentation" where
  \<comment> \<open>The second hypothesis of the doctests: \<^verbatim>\<open>Segment(0, 4)\<close>\<close>
  "hypothesis_1 = Timeline [seg 0 4]"

definition hypothesis_2 :: "unit segmentation" where
  "hypothesis_2 = Timeline [seg 0 3, seg 3 4]"

definition spec_interior_endpoints :: "timeline \<Rightarrow> real list" where
  \<comment> \<open>The boundary sequence in the specification's words: all interval endpoints of the
      structure, in increasing time order, except the very first start and the very last
      end (an endpoint shared by two intervals is one boundary).\<close>
  "spec_interior_endpoints t =
     butlast (tl (sort (remdups (concat (map (\<lambda>s. [seg_start s, seg_end s]) t)))))"

fun contiguous :: "timeline \<Rightarrow> bool" where
  \<comment> \<open>A segmentation without gaps or overlaps: every segment is non-empty and starts where
      the one before it ends.\<close>
  "contiguous [] = True"
| "contiguous [s] = (seg_start s < seg_end s)"
| "contiguous (s # s' # t) =
     (seg_start s < seg_end s \<and> seg_end s = seg_start s' \<and> contiguous (s' # t))"

definition gapped_2 :: "unit segmentation" where
  \<comment> \<open>Two segments with a gap between them\<close>
  "gapped_2 = Timeline [seg 0 1, seg 2 3]"

section \<open>SegmentationCoverage and SegmentationPurity\<close>

subsection \<open>The interval operations of pyannote.core\<close>

definition timeline_add :: "segment \<Rightarrow> timeline \<Rightarrow> timeline" where
  \<comment> \<open>Modelled from the spec: \<^verbatim>\<open>Timeline.add\<close> of pyannote.core, absent from the sources: a
      timeline is a set of intervals kept sorted by start time, then end time.\<close>
  "timeline_add s t = (if s \<in> set t then t else insort_key seg_key s t)"

fun merge_envelope :: "segment \<Rightarrow> timeline \<Rightarrow> timeline" where
  "merge_envelope current [] = [current]"
| "merge_envelope current (s # t) =
     (if seg_start s \<le> seg_end current
      then merge_envelope (current\<lparr>seg_end := max (seg_end current) (seg_end s)\<rparr>) t
      else current # merge_envelope s t)"

definition coverage :: "timeline \<Rightarrow> timeline" where
  \<comment> \<open>Modelled from the spec: \<^verbatim>\<open>Timeline.coverage\<close> of pyannote.core, absent from the
      sources: the merged, non-overlapping envelope of the intervals; intervals that
      overlap or touch are merged.\<close>
  "coverage t = (case sort_key seg_key t of [] \<Rightarrow> [] | s # r \<Rightarrow> merge_envelope s r)"

fun gaps_between :: "timeline \<Rightarrow> timeline" where
  "gaps_between (a # b # t) =
     \<lparr>seg_start = seg_end a, seg_end = seg_start b\<rparr> # gaps_between (b # t)"
| "gaps_between t = []"

definition gaps :: "timeline \<Rightarrow> timeline" where
  \<comment> \<open>Modelled from the spec: \<^verbatim>\<open>Timeline.gaps\<close> of pyannote.core, absent from the sources:
      the complementary intervals strictly between consecutive members of the envelope.\<close>
  "gaps t = gaps_between (coverage t)"

definition labels :: "'l annotation \<Rightarrow> 'l list" where
  \<comment> \<open>Modelled from the spec: \<^verbatim>\<open>Annotation.labels\<close>, the distinct labels; their order has
      no effect on the timeline filled below, which is a sorted set.\<close>
  "labels a = remdups (map snd a)"

definition label_timeline :: "'l annotation \<Rightarrow> 'l \<Rightarrow> timeline" where
  \<comment> \<open>Modelled from the spec: \<^verbatim>\<open>Annotation.label_timeline\<close>, the sub-collection of the
      intervals bearing the label.\<close>
  "label_timeline a label =
     sort_key seg_key (remdups (map fst (filter (\<lambda>(s, l). l = label) a)))"

definition crop :: "timeline \<Rightarrow> timeline \<Rightarrow> timeline" where
  \<comment> \<open>Modelled from the spec: \<^verbatim>\<open>crop(coverage, mode='intersection')\<close>: the overlapping
      portions, truncated to the region, zero-length remainders discarded.\<close>
  "crop t region =
     concat (map (\<lambda>s. concat (map (\<lambda>c.
       let cropped = \<lparr>seg_start = max (seg_start s) (seg_start c),
                      seg_end = min (seg_end s) (seg_end c)\<rparr>
       in if seg_start cropped < seg_end cropped then [cropped] else []) region)) t)"

fun pairwise :: "real list \<Rightarrow> segment list" where
  \<comment> \<open>\<^verbatim>\<open>Segment(start, end) for start, end in pairwise(...)\<close>\<close>
  "pairwise (a # b # t) = \<lparr>seg_start = a, seg_end = b\<rparr> # pairwise (b # t)"
| "pairwise t = []"

definition overlap :: "segment \<Rightarrow> segment \<Rightarrow> real" where
  \<comment> \<open>Modelled from the spec: a cell of the matrix \<^verbatim>\<open>reference * hypothesis\<close>, the duration
      of the overlap of an atomic interval of each partition.\<close>
  "overlap r h = max 0 (min (seg_end r) (seg_end h) - max (seg_start r) (seg_start h))"

subsection \<open>The metrics\<close>

record cvg_detail =
  PTY_CVG_TOTAL :: real
  PTY_CVG_INTER :: real

definition partition :: "timeline \<Rightarrow> timeline \<Rightarrow> timeline" where
  \<comment> \<open>\<^verbatim>\<open>SegmentationCoverage._partition\<close>. Every atomic interval of the result has a track
      label of its own (\<^verbatim>\<open>anonymize_tracks\<close>), so the result is kept as the list of its
      atomic intervals.\<close>
  "partition timeline region =
     (let boundaries = sort (remdups (concat (map (\<lambda>segment.
            [seg_start segment, seg_end segment]) timeline)))
      in crop (pairwise boundaries) region)"

definition fill_gaps :: "real \<Rightarrow> timeline \<Rightarrow> timeline" where
  \<comment> \<open>The inner loop of \<^verbatim>\<open>_preprocess\<close>:
      \<^verbatim>\<open>for gap in label_timeline.gaps(): if gap.duration < self.tolerance: label_timeline.add(gap)\<close>\<close>
  "fill_gaps tolerance timeline =
     fold (\<lambda>gap timeline.
             if duration gap < tolerance then timeline_add gap timeline
             else timeline)
       (gaps timeline) timeline"

definition filled :: "real \<Rightarrow> 'l annotation \<Rightarrow> timeline" where
  \<comment> \<open>The outer loop of \<^verbatim>\<open>_preprocess\<close>: the reference with its short intra-label gaps
      removed.\<close>
  "filled tolerance reference =
     fold (\<lambda>label timeline.
             fold timeline_add (coverage (fill_gaps tolerance (label_timeline reference label)))
               timeline)
       (labels reference) []"

definition preprocess ::
    "real \<Rightarrow> 'l segmentation \<Rightarrow> 'l segmentation \<Rightarrow> error + (timeline \<times> timeline)" where
  \<comment> \<open>\<^verbatim>\<open>SegmentationCoverage._preprocess\<close>\<close>
  "preprocess tolerance reference hypothesis =
     (case reference of
        Timeline _ \<Rightarrow> Inl TypeError
      | Annotation reference \<Rightarrow>
          (let hypothesis = as_timeline hypothesis;
               filled = filled tolerance reference;
               coverage = coverage filled
           in Inr (partition filled coverage, partition hypothesis coverage)))"

definition process :: "timeline \<Rightarrow> timeline \<Rightarrow> error + cvg_detail" where
  \<comment> \<open>\<^verbatim>\<open>SegmentationCoverage._process\<close>; \<^verbatim>\<open>np.max(K, axis=1)\<close> raises ValueError when the
      matrix has no column.\<close>
  "process reference hypothesis =
     (let K = map (\<lambda>r. map (\<lambda>h. overlap r h) hypothesis) reference
      in if hypothesis = [] then Inl ValueError
         else Inr \<lparr>PTY_CVG_TOTAL = sum_list (map sum_list K),
                   PTY_CVG_INTER = sum_list (map (\<lambda>row. fold max (tl row) (hd row)) K)\<rparr>)"

definition coverage_get_details ::
    "real \<Rightarrow> 'l segmentation \<Rightarrow> 'l segmentation \<Rightarrow> error + cvg_detail" where
  \<comment> \<open>\<^verbatim>\<open>SegmentationCoverage._get_details\<close>\<close>
  "coverage_get_details tolerance reference hypothesis =
     (case preprocess tolerance reference hypothesis of
        Inl e \<Rightarrow> Inl e
      | Inr (reference, hypothesis) \<Rightarrow> process reference hypothesis)"

definition purity_get_details ::
    "real \<Rightarrow> 'l segmentation \<Rightarrow> 'l segmentation \<Rightarrow> error + cvg_detail" where
  \<comment> \<open>\<^verbatim>\<open>SegmentationPurity._get_details\<close>\<close>
  "purity_get_details tolerance reference hypothesis =
     (case preprocess tolerance reference hypothesis of
        Inl e \<Rightarrow> Inl e
      | Inr (reference, hypothesis) \<Rightarrow> process hypothesis reference)"

definition cvg_get_rate :: "cvg_detail \<Rightarrow> error + real" where
  \<comment> \<open>\<^verbatim>\<open>SegmentationCoverage._get_rate\<close>, inherited by SegmentationPurity; a total duration
      of zero makes the division raise.\<close>
  "cvg_get_rate detail =
     (if PTY_CVG_TOTAL detail = 0 then Inl ZeroDivisionError
      else Inr (PTY_CVG_INTER detail / PTY_CVG_TOTAL detail))"

definition segmentation_coverage ::
    "real \<Rightarrow> 'l segmentation \<Rightarrow> 'l segmentation \<Rightarrow> error + real" where
  "segmentation_coverage tolerance reference hypothesis =
     (case coverage_get_details tolerance reference hypothesis of
        Inl e \<Rightarrow> Inl e | Inr detail \<Rightarrow> cvg_get_rate detail)"

definition segmentation_purity ::
    "real \<Rightarrow> 'l segmentation \<Rightarrow> 'l segmentation \<Rightarrow> error + real" where
  "segmentation_purity tolerance reference hypothesis =
     (case purity_get_details tolerance reference hypothesis of
        Inl e \<Rightarrow> Inl e | Inr detail \<Rightarrow> cvg_get_rate detail)"

definition whole_4 :: "string segmentation" where
  \<comment> \<open>One interval \<open>[0,4]\<close> under one label\<close>
  "whole_4 = Annotation [(seg 0 4, ''a'')]"

definition ends_4 :: "string segmentation" where
  \<comment> \<open>The intervals \<open>[0,1]\<close> and \<open>[3,4]\<close> under two labels\<close>
  "ends_4 = Annotation [(seg 0 1, ''x''), (seg 3 4, ''y'')]"

definition halves_2 :: "string segmentation" where
  \<comment> \<open>The intervals \<open>[0,1]\<close> and \<open>[1,2]\<close> under two labels\<close>
  "halves_2 = Annotation [(seg 0 1, ''a''), (seg 1 2, ''b'')]"

definition short_gap :: "string annotation" where
  \<comment> \<open>The intervals \<open>[0,1]\<close> and \<open>[1.2,2]\<close> under one label: a gap of duration \<open>0.2\<close>\<close>
  "short_gap = [(seg 0 1, ''a''), (seg (12 / 10) 2, ''a'')]"

definition half_gap :: "string annotation" where
  \<comment> \<open>The intervals \<open>[0,1]\<close> and \<open>[1.5,2]\<close> under one label: a gap of duration \<open>0.5\<close>\<close>
  "half_gap = [(seg 0 1, ''a''), (seg (3 / 2) 2, ''a'')]"

definition whole_2 :: "string segmentation" where
  \<comment> \<open>One interval \<open>[0,2]\<close> under one label\<close>
  "whole_2 = Annotation [(seg 0 2, ''x'')]"



section \<open>The greedy extraction loop\<close>

lemma greedy_loop_step:
  "amin d < np_inf \<Longrightarrow> greedy_loop M n d = greedy_loop M (n + 1) (next_delta M d)"
  by (subst greedy_loop.simps) (simp add: next_delta_def Let_def)

lemma greedy_loop_stop: "\<not> amin d < np_inf \<Longrightarrow> greedy_loop M n d = n"
  by (subst greedy_loop.simps) simp

lemma greedy_trace_step:
  "amin d < np_inf \<Longrightarrow>
     greedy_trace M d = (argmin d div M, argmin d mod M) # greedy_trace M (next_delta M d)"
  by (subst greedy_trace.simps) (simp add: next_delta_def Let_def)

lemma greedy_trace_stop: "\<not> amin d < np_inf \<Longrightarrow> greedy_trace M d = []"
  by (subst greedy_trace.simps) simp

lemma length_next_delta [simp]: "length (next_delta M d) = length d"
  by (simp add: next_delta_def)

lemma nth_next_delta:
  "p < length d \<Longrightarrow> next_delta M d ! p =
     (if p div M = argmin d div M \<or> p mod M = argmin d mod M then np_inf else d ! p)"
  by (simp add: next_delta_def nth_set_col_row)

lemma finite_entries_next: "amin d < np_inf \<Longrightarrow> finite_entries (next_delta M d) < finite_entries d"
  by (simp add: next_delta_def finite_entries_decrease)

lemma greedy_loop_trace: "greedy_loop M n d = n + real (length (greedy_trace M d))"
proof (induction "finite_entries d" arbitrary: d n rule: less_induct)
  case less
  show ?case
  proof (cases "amin d < np_inf")
    case True
    then show ?thesis
      using less [OF finite_entries_next [OF True], of "n + 1"]
      by (simp add: greedy_loop_step greedy_trace_step)
  next
    case False
    then show ?thesis by (simp add: greedy_loop_stop greedy_trace_stop)
  qed
qed

lemma greedy_trace_cells:
  "(i, j) \<in> set (greedy_trace M d) \<Longrightarrow>
     \<exists>k<length d. d ! k \<noteq> np_inf \<and> i = k div M \<and> j = k mod M"
proof (induction "finite_entries d" arbitrary: d rule: less_induct)
  case less
  show ?case
  proof (cases "amin d < np_inf")
    case True
    from less.prems True
    consider "i = argmin d div M \<and> j = argmin d mod M"
      | "(i, j) \<in> set (greedy_trace M (next_delta M d))"
      by (auto simp: greedy_trace_step)
    then show ?thesis
    proof cases
      case 1
      then show ?thesis
        using True argmin_less [OF True] argmin_nth [OF True]
        by (auto simp: npfloat_less_inf)
    next
      case 2
      from less.hyps [OF finite_entries_next [OF True] 2]
      obtain k where "k < length d" "next_delta M d ! k \<noteq> np_inf" "i = k div M" "j = k mod M"
        by auto
      then show ?thesis
        by (auto simp: nth_next_delta split: if_splits)
    qed
  next
    case False
    with less.prems show ?thesis by (simp add: greedy_trace_stop)
  qed
qed

lemma greedy_trace_distinct_rows: "distinct (map fst (greedy_trace M d))"
proof (induction "finite_entries d" arbitrary: d rule: less_induct)
  case less
  show ?case
  proof (cases "amin d < np_inf")
    case True
    have "argmin d div M \<notin> fst ` set (greedy_trace M (next_delta M d))"
    proof
      assume "argmin d div M \<in> fst ` set (greedy_trace M (next_delta M d))"
      then obtain j where "(argmin d div M, j) \<in> set (greedy_trace M (next_delta M d))"
        by auto
      from greedy_trace_cells [OF this]
      show False by (auto simp: nth_next_delta split: if_splits)
    qed
    with less.hyps [OF finite_entries_next [OF True]] True
    show ?thesis by (simp add: greedy_trace_step)
  next
    case False
    then show ?thesis by (simp add: greedy_trace_stop)
  qed
qed

lemma greedy_trace_distinct_cols: "distinct (map snd (greedy_trace M d))"
proof (induction "finite_entries d" arbitrary: d rule: less_induct)
  case less
  show ?case
  proof (cases "amin d < np_inf")
    case True
    have "argmin d mod M \<notin> snd ` set (greedy_trace M (next_delta M d))"
    proof
      assume "argmin d mod M \<in> snd ` set (greedy_trace M (next_delta M d))"
      then obtain i where "(i, argmin d mod M) \<in> set (greedy_trace M (next_delta M d))"
        by auto
      from greedy_trace_cells [OF this]
      show False by (auto simp: nth_next_delta split: if_splits)
    qed
    with less.hyps [OF finite_entries_next [OF True]] True
    show ?thesis by (simp add: greedy_trace_step)
  next
    case False
    then show ?thesis by (simp add: greedy_trace_stop)
  qed
qed

section \<open>The matches found for a pair of timelines\<close>

lemma length_build_delta [simp]: "length (build_delta rb hb) = length rb * length hb"
  by (simp add: build_delta_def)

lemma nth_build_delta:
  "k < length rb * length hb \<Longrightarrow>
     build_delta rb hb ! k = Float \<bar>rb ! (k div length hb) - hb ! (k mod length hb)\<bar>"
  by (simp add: build_delta_def product_nth)

lemma length_mask_far [simp]: "length (mask_far t d) = length d"
  by (simp add: mask_far_def)

lemma nth_mask_far: "k < length d \<Longrightarrow> mask_far t d ! k = (if Float t < d ! k then np_inf else d ! k)"
  by (simp add: mask_far_def)

lemma flat_index_bounds:
  fixes k :: nat
  assumes "k < N * M"
  shows "k div M < N" and "k mod M < M"
proof -
  from assms have M: "0 < M" by (cases M) simp_all
  show "k div M < N" using assms by (simp add: less_mult_imp_div_less)
  show "k mod M < M" using M by simp
qed

lemma masked_cell_finite:
  assumes "k < length rb * length hb" and "mask_far t (build_delta rb hb) ! k \<noteq> np_inf"
  shows "\<bar>rb ! (k div length hb) - hb ! (k mod length hb)\<bar> \<le> t"
  using assms by (simp add: nth_mask_far nth_build_delta Float_less_iff split: if_splits)

lemma matched_pairs_within:
  assumes "(i, j) \<in> set (matched_pairs t r h)"
  shows "i < length (boundaries r) \<and> j < length (boundaries h) \<and>
         \<bar>boundaries r ! i - boundaries h ! j\<bar> \<le> t"
proof -
  let ?rb = "boundaries r" and ?hb = "boundaries h"
  from greedy_trace_cells [OF assms [unfolded matched_pairs_def]]
  obtain k where k: "k < length ?rb * length ?hb"
    and fin: "mask_far t (build_delta ?rb ?hb) ! k \<noteq> np_inf"
    and ij: "i = k div length ?hb" "j = k mod length ?hb"
    by auto
  from flat_index_bounds [OF k] masked_cell_finite [OF k fin] ij
  show ?thesis by simp
qed

lemma distinct_bounded_length:
  fixes xs :: "nat list"
  assumes "distinct xs" and "\<forall>x\<in>set xs. x < n"
  shows "length xs \<le> n"
proof -
  have "set xs \<subseteq> {..<n}" using assms(2) by auto
  then have "card (set xs) \<le> card {..<n}" by (intro card_mono) simp_all
  with assms(1) show ?thesis by (simp add: distinct_card)
qed

lemma matched_pairs_le_rows: "length (matched_pairs t r h) \<le> length (boundaries r)"
proof -
  have "length (map fst (matched_pairs t r h)) \<le> length (boundaries r)"
  proof (rule distinct_bounded_length)
    show "distinct (map fst (matched_pairs t r h))"
      by (simp add: matched_pairs_def greedy_trace_distinct_rows)
    show "\<forall>x\<in>set (map fst (matched_pairs t r h)). x < length (boundaries r)"
      using matched_pairs_within by fastforce
  qed
  then show ?thesis by simp
qed

lemma matched_pairs_le_cols: "length (matched_pairs t r h) \<le> length (boundaries h)"
proof -
  have "length (map snd (matched_pairs t r h)) \<le> length (boundaries h)"
  proof (rule distinct_bounded_length)
    show "distinct (map snd (matched_pairs t r h))"
      by (simp add: matched_pairs_def greedy_trace_distinct_cols)
    show "\<forall>x\<in>set (map snd (matched_pairs t r h)). x < length (boundaries h)"
      using matched_pairs_within by fastforce
  qed
  then show ?thesis by simp
qed

lemma length_boundaries [simp]: "length (boundaries t) = length t - 1"
  by (simp add: boundaries_def)

lemma matched_pairs_degenerate:
  assumes "length r \<le> 1 \<or> length h \<le> 1"
  shows "matched_pairs t r h = []"
proof -
  have "length (build_delta (boundaries r) (boundaries h)) = 0"
    using assms by auto
  then have "build_delta (boundaries r) (boundaries h) = []"
    by (simp only: length_0_conv)
  then show ?thesis by (simp add: matched_pairs_def mask_far_def greedy_trace_stop)
qed

lemma get_details_Inr:
  assumes "get_details t reference hypothesis = Inr detail"
  shows "PR_BOUNDARIES detail = int (length (as_timeline hypothesis)) - 1"
    and "PR_MATCHES detail =
           real (length (matched_pairs t (as_timeline reference) (as_timeline hypothesis)))"
proof -
  let ?r = "as_timeline reference" and ?h = "as_timeline hypothesis"
  show "PR_BOUNDARIES detail = int (length ?h) - 1"
    using assms by (auto simp: get_details_def Let_def split: if_splits)
  show "PR_MATCHES detail = real (length (matched_pairs t ?r ?h))"
  proof (cases "int (length ?h) - 1 = 0 \<or> int (length ?r) - 1 = 0")
    case True
    then have "length ?r \<le> 1 \<or> length ?h \<le> 1" by auto
    then have "matched_pairs t ?r ?h = []" by (rule matched_pairs_degenerate)
    with True assms show ?thesis by (auto simp: get_details_def Let_def)
  next
    case False
    with assms have "\<not> (int (length ?r) - 1 < 0 \<or> int (length ?h) - 1 < 0)"
      by (auto simp: get_details_def Let_def split: if_splits)
    then have "nat (int (length ?h) - 1) = length (boundaries ?h)" by auto
    with False assms show ?thesis
      by (auto simp: get_details_def Let_def greedy_loop_trace matched_pairs_def
          split: if_splits)
  qed
qed

lemma get_details_defined:
  assumes "1 \<le> length (as_timeline reference)" and "1 \<le> length (as_timeline hypothesis)"
  shows "\<exists>detail. get_details t reference hypothesis = Inr detail"
  using assms by (auto simp: get_details_def Let_def)

lemma greedy_trace_le_rows:
  assumes "length d = N * M"
  shows "length (greedy_trace M d) \<le> N"
proof -
  have "length (map fst (greedy_trace M d)) \<le> N"
  proof (rule distinct_bounded_length)
    show "distinct (map fst (greedy_trace M d))" by (rule greedy_trace_distinct_rows)
    show "\<forall>x\<in>set (map fst (greedy_trace M d)). x < N"
    proof
      fix x assume "x \<in> set (map fst (greedy_trace M d))"
      then obtain j where "(x, j) \<in> set (greedy_trace M d)" by auto
      from greedy_trace_cells [OF this] assms flat_index_bounds(1) [of _ N M]
      show "x < N" by auto
    qed
  qed
  then show ?thesis by simp
qed

lemma greedy_trace_le_cols:
  assumes "length d = N * M"
  shows "length (greedy_trace M d) \<le> M"
proof -
  have "length (map snd (greedy_trace M d)) \<le> M"
  proof (rule distinct_bounded_length)
    show "distinct (map snd (greedy_trace M d))" by (rule greedy_trace_distinct_cols)
    show "\<forall>x\<in>set (map snd (greedy_trace M d)). x < M"
    proof
      fix x assume "x \<in> set (map snd (greedy_trace M d))"
      then obtain i where "(i, x) \<in> set (greedy_trace M d)" by auto
      from greedy_trace_cells [OF this] assms flat_index_bounds(2) [of _ N M]
      show "x < M" by auto
    qed
  qed
  then show ?thesis by simp
qed

lemma greedy_fuel_enough:
  "length (greedy_trace M d) \<le> fuel \<Longrightarrow> greedy_fuel fuel M n d = Some (greedy_loop M n d)"
proof (induction fuel arbitrary: d n)
  case 0
  then have "\<not> amin d < np_inf"
    by (auto simp: greedy_trace_step)
  then show ?case by (simp add: greedy_loop_stop)
next
  case (Suc fuel)
  show ?case
  proof (cases "amin d < np_inf")
    case True
    with Suc.prems have "length (greedy_trace M (next_delta M d)) \<le> fuel"
      by (simp add: greedy_trace_step)
    from Suc.IH [OF this, of "n + 1"] True show ?thesis
      by (simp add: greedy_loop_step Let_def next_delta_def)
  next
    case False
    then show ?thesis by (simp add: greedy_loop_stop)
  qed
qed

section \<open>Claims on the Boundary Matcher\<close>

text \<open>
  Claim C1. Whenever \<^verbatim>\<open>SegmentationPrecision._get_details\<close> returns, its match count is the
  number of cells \<open>(i, j)\<close> chosen by the iterations of the greedy loop, and every chosen
  cell pairs a reference boundary and a hypothesis boundary whose absolute distance is at
  most the tolerance: a pair farther apart than the tolerance is never counted, whatever
  the tolerance. SegmentationRecall runs the same function with the two arguments swapped,
  so the statement covers it.
\<close>

theorem matches_within_tolerance:
  assumes "get_details tolerance reference hypothesis = Inr detail"
  shows "PR_MATCHES detail =
           real (length (matched_pairs tolerance (as_timeline reference) (as_timeline hypothesis)))
       \<and> (\<forall>(i, j) \<in> set (matched_pairs tolerance (as_timeline reference) (as_timeline hypothesis)).
            i < length (boundaries (as_timeline reference)) \<and>
            j < length (boundaries (as_timeline hypothesis)) \<and>
            \<bar>boundaries (as_timeline reference) ! i - boundaries (as_timeline hypothesis) ! j\<bar>
              \<le> tolerance)"
  using get_details_Inr(2) [OF assms] matched_pairs_within by blast

theorem matches_within_tolerance_witness:
  "get_details 0 reference_3 hypothesis_4 = Inr \<lparr>PR_MATCHES = 2, PR_BOUNDARIES = 3\<rparr>
   \<and> matched_pairs 0 (as_timeline reference_3) (as_timeline hypothesis_4) = [(0, 0), (1, 1)]
   \<and> PR_MATCHES \<lparr>PR_MATCHES = 2, PR_BOUNDARIES = 3\<rparr> =
           real (length (matched_pairs 0 (as_timeline reference_3) (as_timeline hypothesis_4)))
   \<and> \<bar>boundaries (as_timeline reference_3) ! 0 - boundaries (as_timeline hypothesis_4) ! 0\<bar>
         \<le> 0
   \<and> \<bar>boundaries (as_timeline reference_3) ! 1 - boundaries (as_timeline hypothesis_4) ! 1\<bar>
         \<le> 0"
proof -
  have h: "get_details 0 reference_3 hypothesis_4 = Inr \<lparr>PR_MATCHES = 2, PR_BOUNDARIES = 3\<rparr>"
    by code_simp
  have p: "matched_pairs 0 (as_timeline reference_3) (as_timeline hypothesis_4) = [(0, 0), (1, 1)]"
    by code_simp
  note T = matches_within_tolerance [OF h]
  from T have c: "PR_MATCHES \<lparr>PR_MATCHES = 2, PR_BOUNDARIES = 3\<rparr> =
           real (length (matched_pairs 0 (as_timeline reference_3) (as_timeline hypothesis_4)))"
    by blast
  from T have "\<forall>(i, j) \<in> set [(0, 0), (1, 1)].
      \<bar>boundaries (as_timeline reference_3) ! i - boundaries (as_timeline hypothesis_4) ! j\<bar> \<le> 0"
    unfolding p by blast
  with h p c show ?thesis by simp
qed



text \<open>
  Claim C5. The first doctest, with tolerance 0: for the reference \<open>[0,1], [1,2], [2,4]\<close>
  and the hypothesis \<open>[0,1], [1,2], [2,3], [3,4]\<close>, precision finds 2 matches among the 3
  hypothesis boundaries \<open>1, 2, 3\<close> (the matched ones are \<open>1\<close> and \<open>2\<close>) and returns
  \<open>2/3\<close>; recall finds both reference boundaries matched and returns \<open>1\<close>.
\<close>

theorem doctest_precision_recall:
  "get_details 0 reference_3 hypothesis_4 = Inr \<lparr>PR_MATCHES = 2, PR_BOUNDARIES = 3\<rparr>
   \<and> precision 0 reference_3 hypothesis_4 = Inr (2 / 3)
   \<and> boundaries (as_timeline hypothesis_4) = [1, 2, 3]
   \<and> map (\<lambda>(i, j). boundaries (as_timeline hypothesis_4) ! j)
         (matched_pairs 0 (as_timeline reference_3) (as_timeline hypothesis_4)) = [1, 2]
   \<and> recall_get_details 0 reference_3 hypothesis_4 = Inr \<lparr>PR_MATCHES = 2, PR_BOUNDARIES = 2\<rparr>
   \<and> recall 0 reference_3 hypothesis_4 = Inr 1"
proof -
  have "get_details 0 reference_3 hypothesis_4 = Inr \<lparr>PR_MATCHES = 2, PR_BOUNDARIES = 3\<rparr>"
    by code_simp
  moreover have "precision 0 reference_3 hypothesis_4 = Inr (2 / 3)"
    by code_simp
  moreover have "boundaries (as_timeline hypothesis_4) = [1, 2, 3]"
    by code_simp
  moreover have "map (\<lambda>(i, j). boundaries (as_timeline hypothesis_4) ! j)
         (matched_pairs 0 (as_timeline reference_3) (as_timeline hypothesis_4)) = [1, 2]"
    by code_simp
  moreover have "recall_get_details 0 reference_3 hypothesis_4 =
      Inr \<lparr>PR_MATCHES = 2, PR_BOUNDARIES = 2\<rparr>"
    by code_simp
  moreover have "recall 0 reference_3 hypothesis_4 = Inr 1"
    by code_simp
  ultimately show ?thesis by blast
qed

text \<open>
  Claim C6. \<^verbatim>\<open>_get_rate\<close> returns the match count divided by the boundary count when the
  boundary count is positive; when the boundary count is 0 it returns \<open>1\<close> if the match
  count is 0 too, and raises ValueError otherwise.
\<close>

theorem get_rate_cases:
  "(0 < PR_BOUNDARIES detail \<longrightarrow>
      get_rate detail = Inr (PR_MATCHES detail / real_of_int (PR_BOUNDARIES detail)))
   \<and> (PR_BOUNDARIES detail = 0 \<and> PR_MATCHES detail = 0 \<longrightarrow> get_rate detail = Inr 1)
   \<and> (PR_BOUNDARIES detail = 0 \<and> PR_MATCHES detail \<noteq> 0 \<longrightarrow> get_rate detail = Inl ValueError)"
  by (simp add: get_rate_def Let_def)

theorem get_rate_cases_witness:
  "get_rate \<lparr>PR_MATCHES = 2, PR_BOUNDARIES = 3\<rparr> = Inr (2 / 3)
   \<and> get_rate \<lparr>PR_MATCHES = 0, PR_BOUNDARIES = 0\<rparr> = Inr 1
   \<and> get_rate \<lparr>PR_MATCHES = 1, PR_BOUNDARIES = 0\<rparr> = Inl ValueError"
  using get_rate_cases [of "\<lparr>PR_MATCHES = 2, PR_BOUNDARIES = 3\<rparr>"]
    get_rate_cases [of "\<lparr>PR_MATCHES = 0, PR_BOUNDARIES = 0\<rparr>"]
    get_rate_cases [of "\<lparr>PR_MATCHES = 1, PR_BOUNDARIES = 0\<rparr>"]
  by simp

text \<open>
  Claim C7. The claim asks for match count 0 and the hypothesis boundary count whenever a
  structure has fewer than 2 intervals. The guard of the corner case is
  \<^verbatim>\<open>M == 0 or N == 0\<close>; an empty timeline has \<^verbatim>\<open>len\<close> 0, hence the count \<open>-1\<close>, and
  slips through it. The theorem evaluates the code there: with an empty reference and the
  four-interval hypothesis \<^verbatim>\<open>np.zeros\<close> raises ValueError (for precision, and for recall
  with an empty hypothesis), and with an empty hypothesis against a single interval the
  boundary count returned is \<open>-1\<close>. The two lemmas after it record what the code does
  when no timeline is empty, and the second doctest.
\<close>

theorem empty_timeline_details:
  "get_details 0 (Timeline [] :: unit segmentation) hypothesis_4 = Inl ValueError
   \<and> recall_get_details 0 reference_3 (Timeline [] :: unit segmentation) = Inl ValueError
   \<and> get_details 0 reference_3 (Timeline [] :: unit segmentation) = Inl ValueError
   \<and> get_details 0 hypothesis_1 (Timeline [] :: unit segmentation) =
       Inr \<lparr>PR_MATCHES = 0, PR_BOUNDARIES = - 1\<rparr>"
proof -
  have "get_details 0 (Timeline [] :: unit segmentation) hypothesis_4 = Inl ValueError"
    by code_simp
  moreover have "recall_get_details 0 reference_3 (Timeline [] :: unit segmentation) = Inl ValueError"
    by code_simp
  moreover have "get_details 0 reference_3 (Timeline [] :: unit segmentation) = Inl ValueError"
    by code_simp
  moreover have "get_details 0 hypothesis_1 (Timeline [] :: unit segmentation) =
       Inr \<lparr>PR_MATCHES = 0, PR_BOUNDARIES = - 1\<rparr>"
    by code_simp
  ultimately show ?thesis by blast
qed

lemma degenerate_details:
  assumes "1 \<le> length (as_timeline reference)" and "1 \<le> length (as_timeline hypothesis)"
    and "length (as_timeline reference) < 2 \<or> length (as_timeline hypothesis) < 2"
  shows "get_details tolerance reference hypothesis =
           Inr \<lparr>PR_MATCHES = 0, PR_BOUNDARIES = int (length (boundaries (as_timeline hypothesis)))\<rparr>"
  using assms by (auto simp: get_details_def Let_def)

lemma doctest_single_interval:
  "precision 0 reference_3 hypothesis_1 = Inr 1 \<and> recall 0 reference_3 hypothesis_1 = Inr 0"
proof -
  have "precision 0 reference_3 hypothesis_1 = Inr 1" by code_simp
  moreover have "recall 0 reference_3 hypothesis_1 = Inr 0" by code_simp
  ultimately show ?thesis by blast
qed

text \<open>
  Claim C8. On an \<open>N \<times> M\<close> array, an iteration of the greedy loop sets the whole row and
  the whole column of the chosen cell to \<^verbatim>\<open>np.inf\<close> and strictly decreases the number of
  finite entries; the loop with a budget of \<open>min N M\<close> iterations never runs out
  of budget and returns what the loop returns, so the loop ends within \<open>min N M\<close>
  iterations; and the match count grows by at most \<open>min N M\<close>. The match count returned
  by \<^verbatim>\<open>_get_details\<close> is at most the smaller of the two boundary counts.
\<close>

theorem greedy_loop_terminates:
  assumes "length delta = N * M"
  shows "(\<forall>p<length delta.
            p div M = argmin delta div M \<or> p mod M = argmin delta mod M \<longrightarrow>
            next_delta M delta ! p = np_inf)
       \<and> (amin delta < np_inf \<longrightarrow>
            finite_entries (next_delta M delta) < finite_entries delta)
       \<and> greedy_fuel (min N M) M nMatches delta = Some (greedy_loop M nMatches delta)
       \<and> greedy_loop M nMatches delta \<le> nMatches + real (min N M)
       \<and> (get_details tolerance reference hypothesis = Inr detail \<longrightarrow>
            PR_MATCHES detail \<le> real (min (length (boundaries (as_timeline reference)))
                                          (length (boundaries (as_timeline hypothesis)))))"
proof -
  have "PR_MATCHES detail \<le> real (min (length (boundaries (as_timeline reference)))
                                          (length (boundaries (as_timeline hypothesis))))"
    if "get_details tolerance reference hypothesis = Inr detail"
    using get_details_Inr(2) [OF that]
      matched_pairs_le_rows [of tolerance "as_timeline reference" "as_timeline hypothesis"]
      matched_pairs_le_cols [of tolerance "as_timeline reference" "as_timeline hypothesis"]
    by simp
  moreover
  have "length (greedy_trace M delta) \<le> min N M"
    using greedy_trace_le_rows [OF assms] greedy_trace_le_cols [OF assms] by simp
  ultimately show ?thesis
    by (simp add: nth_next_delta finite_entries_next greedy_fuel_enough greedy_loop_trace)
qed

theorem greedy_loop_terminates_witness:
  "length (mask_far 0 (build_delta [1, 2] [1, 2, 3])) = 2 * 3
   \<and> amin (mask_far 0 (build_delta [1, 2] [1, 2, 3])) < np_inf
   \<and> next_delta 3 (mask_far 0 (build_delta [1, 2] [1, 2, 3])) =
        [np_inf, np_inf, np_inf, np_inf, Float 0, np_inf]
   \<and> finite_entries (next_delta 3 (mask_far 0 (build_delta [1, 2] [1, 2, 3])))
        < finite_entries (mask_far 0 (build_delta [1, 2] [1, 2, 3]))
   \<and> greedy_fuel 2 3 0 (mask_far 0 (build_delta [1, 2] [1, 2, 3])) = Some 2
   \<and> greedy_loop 3 0 (mask_far 0 (build_delta [1, 2] [1, 2, 3])) \<le> 2
   \<and> get_details 0 reference_3 hypothesis_4 = Inr \<lparr>PR_MATCHES = 2, PR_BOUNDARIES = 3\<rparr>
   \<and> PR_MATCHES \<lparr>PR_MATCHES = 2, PR_BOUNDARIES = 3\<rparr>
        \<le> real (min (length (boundaries (as_timeline reference_3)))
                      (length (boundaries (as_timeline hypothesis_4))))"
proof -
  have d: "get_details 0 reference_3 hypothesis_4 = Inr \<lparr>PR_MATCHES = 2, PR_BOUNDARIES = 3\<rparr>"
    by code_simp
  have a: "length (mask_far 0 (build_delta [1, 2] [1, 2, 3])) = 2 * 3" by simp
  have b: "amin (mask_far 0 (build_delta [1, 2] [1, 2, 3])) < np_inf" by code_simp
  have c: "greedy_loop 3 0 (mask_far 0 (build_delta [1, 2] [1, 2, 3])) = 2" by code_simp
  have e: "next_delta 3 (mask_far 0 (build_delta [1, 2] [1, 2, 3])) =
        [np_inf, np_inf, np_inf, np_inf, Float 0, np_inf]" by code_simp
  from greedy_loop_terminates [OF a, of 0 0 reference_3 hypothesis_4
      "\<lparr>PR_MATCHES = 2, PR_BOUNDARIES = 3\<rparr>"] a b c d e
  show ?thesis by simp
qed

section \<open>Raising the tolerance\<close>

lemma np_inf_le_iff: "(np_inf \<le> y) = (y = np_inf)"
  by (cases y) simp_all

lemma mask_cell_min:
  "(if Float t < min x y then np_inf else min x y) =
     min (if Float t < x then np_inf else x) (if Float t < y then np_inf else y)"
  by (cases "x \<le> y") (auto simp: min_def npfloat_le_inf np_inf_le_iff)

lemma amin_mask_far: "amin (mask_far t d) = (if Float t < amin d then np_inf else amin d)"
proof (induction d)
  case Nil
  then show ?case by (simp add: mask_far_def)
next
  case (Cons x xs)
  have "amin (mask_far t (x # xs)) =
          min (if Float t < x then np_inf else x) (amin (mask_far t xs))"
    by (simp add: mask_far_def)
  also have "\<dots> = min (if Float t < x then np_inf else x)
                      (if Float t < amin xs then np_inf else amin xs)"
    by (simp only: Cons.IH)
  also have "\<dots> = (if Float t < min x (amin xs) then np_inf else min x (amin xs))"
    by (rule mask_cell_min [symmetric])
  finally show ?case by simp
qed

lemma amin_mask_far_finite:
  assumes "amin (mask_far t d) < np_inf"
  shows "amin (mask_far t d) = amin d" and "amin d < np_inf" and "\<not> Float t < amin d"
  using assms by (auto simp: amin_mask_far npfloat_less_inf split: if_splits)

lemma argmin_mask_far:
  assumes "amin (mask_far t d) < np_inf"
  shows "argmin (mask_far t d) = argmin d"
proof -
  let ?f = "\<lambda>x. if Float t < x then np_inf else x"
  let ?m = "amin d"
  have m: "amin (mask_far t d) = ?m" "?m \<noteq> np_inf" "\<not> Float t < ?m"
    using amin_mask_far_finite [OF assms] by (simp_all add: npfloat_less_inf)
  have "takeWhile ((\<lambda>x. x \<noteq> ?m) \<circ> ?f) d = takeWhile (\<lambda>x. x \<noteq> ?m) d"
    by (rule takeWhile_cong) (use m in auto)
  then show ?thesis
    by (simp add: argmin_def m(1)) (simp add: mask_far_def takeWhile_map)
qed

lemma next_delta_mask_far:
  assumes "amin (mask_far t d) < np_inf"
  shows "next_delta M (mask_far t d) = mask_far t (next_delta M d)"
proof (rule nth_equalityI)
  show "length (next_delta M (mask_far t d)) = length (mask_far t (next_delta M d))"
    by simp
  fix p assume "p < length (next_delta M (mask_far t d))"
  then have p: "p < length d" by simp
  then show "next_delta M (mask_far t d) ! p = mask_far t (next_delta M d) ! p"
    by (simp add: nth_next_delta nth_mask_far argmin_mask_far [OF assms] npfloat_less_inf
        np_inf_not_less)
qed

lemma greedy_trace_mask_far_prefix:
  "\<exists>rest. greedy_trace M d = greedy_trace M (mask_far t d) @ rest"
proof (induction "finite_entries d" arbitrary: d rule: less_induct)
  case less
  show ?case
  proof (cases "amin (mask_far t d) < np_inf")
    case True
    note fin = amin_mask_far_finite(2) [OF True]
    from less [OF finite_entries_next [OF fin], of M]
    obtain rest where "greedy_trace M (next_delta M d) =
        greedy_trace M (mask_far t (next_delta M d)) @ rest" by blast
    then show ?thesis
      by (simp add: greedy_trace_step [OF fin] greedy_trace_step [OF True]
          argmin_mask_far [OF True] next_delta_mask_far [OF True])
  next
    case False
    then show ?thesis by (simp add: greedy_trace_stop)
  qed
qed

lemma mask_far_twice: "t1 \<le> t2 \<Longrightarrow> mask_far t1 (mask_far t2 d) = mask_far t1 d"
proof -
  assume le: "t1 \<le> t2"
  have "Float t1 < x" if "Float t2 < x" for x
    using that le by (cases x) (auto simp: Float_less_iff npfloat_less_inf)
  then show ?thesis by (auto simp: mask_far_def npfloat_less_inf)
qed

lemma matched_pairs_mono:
  assumes "t1 \<le> t2"
  shows "\<exists>rest. matched_pairs t2 r h = matched_pairs t1 r h @ rest"
  using greedy_trace_mask_far_prefix [of "length (boundaries h)"
      "mask_far t2 (build_delta (boundaries r) (boundaries h))" t1]
  by (simp add: matched_pairs_def mask_far_twice [OF assms])

text \<open>
  Claim C9. For fixed reference and hypothesis, raising the tolerance never lowers the match
  count: when \<^verbatim>\<open>_get_details\<close> returns for the tolerances \<open>t1 \<le> t2\<close>, the match count
  for \<open>t1\<close> is at most the match count for \<open>t2\<close>, the boundary counts agree, and the rate
  for \<open>t1\<close> is at most the rate for \<open>t2\<close> whenever \<^verbatim>\<open>_get_rate\<close> returns one for both.
  (The cells chosen with \<open>t1\<close> are the first cells chosen with \<open>t2\<close>, lemma
  \<open>matched_pairs_mono\<close>.) Recall is the same function with the arguments swapped.
\<close>

theorem match_count_monotone:
  assumes "t1 \<le> t2"
    and "get_details t1 reference hypothesis = Inr d1"
    and "get_details t2 reference hypothesis = Inr d2"
  shows "PR_MATCHES d1 \<le> PR_MATCHES d2 \<and> PR_BOUNDARIES d1 = PR_BOUNDARIES d2
       \<and> (\<forall>x1 x2. get_rate d1 = Inr x1 \<and> get_rate d2 = Inr x2 \<longrightarrow> x1 \<le> x2)"
proof -
  let ?r = "as_timeline reference" and ?h = "as_timeline hypothesis"
  note D1 = get_details_Inr [OF assms(2)] and D2 = get_details_Inr [OF assms(3)]
  from matched_pairs_mono [OF assms(1), of ?r ?h]
  have le: "PR_MATCHES d1 \<le> PR_MATCHES d2" using D1(2) D2(2) by auto
  have bd: "PR_BOUNDARIES d1 = PR_BOUNDARIES d2" using D1(1) D2(1) by simp
  have rate: "x1 \<le> x2" if r: "get_rate d1 = Inr x1" "get_rate d2 = Inr x2" for x1 x2
  proof -
    consider "0 < PR_BOUNDARIES d1" | "PR_BOUNDARIES d1 = 0" | "PR_BOUNDARIES d1 < 0"
      by linarith
    then show ?thesis
    proof cases
      case 1
      with r bd le show ?thesis
        by (auto simp: get_rate_def Let_def divide_right_mono)
    next
      case 2
      with r bd show ?thesis
        by (auto simp: get_rate_def Let_def split: if_splits)
    next
      case 3
      with D1(1) have "length ?h \<le> 1" by simp
      then have "matched_pairs t1 ?r ?h = []" "matched_pairs t2 ?r ?h = []"
        by (simp_all add: matched_pairs_degenerate)
      with D1(2) D2(2) r 3 bd show ?thesis
        by (auto simp: get_rate_def Let_def split: if_splits)
    qed
  qed
  from le bd rate show ?thesis by blast
qed

theorem match_count_monotone_witness:
  "(0::real) \<le> 1
   \<and> get_details 0 reference_3 hypothesis_2 = Inr \<lparr>PR_MATCHES = 0, PR_BOUNDARIES = 1\<rparr>
   \<and> get_details 1 reference_3 hypothesis_2 = Inr \<lparr>PR_MATCHES = 1, PR_BOUNDARIES = 1\<rparr>
   \<and> PR_MATCHES \<lparr>PR_MATCHES = 0, PR_BOUNDARIES = 1\<rparr>
        \<le> PR_MATCHES \<lparr>PR_MATCHES = 1, PR_BOUNDARIES = 1\<rparr>
   \<and> get_rate \<lparr>PR_MATCHES = 0, PR_BOUNDARIES = 1\<rparr> = Inr 0
   \<and> get_rate \<lparr>PR_MATCHES = 1, PR_BOUNDARIES = 1\<rparr> = Inr 1"
proof -
  have a: "(0::real) \<le> 1" by simp
  have b: "get_details 0 reference_3 hypothesis_2 = Inr \<lparr>PR_MATCHES = 0, PR_BOUNDARIES = 1\<rparr>"
    by code_simp
  have c: "get_details 1 reference_3 hypothesis_2 = Inr \<lparr>PR_MATCHES = 1, PR_BOUNDARIES = 1\<rparr>"
    by code_simp
  have d: "get_rate \<lparr>PR_MATCHES = 0, PR_BOUNDARIES = 1\<rparr> = Inr 0"
    by (simp add: get_rate_def)
  have e: "get_rate \<lparr>PR_MATCHES = 1, PR_BOUNDARIES = 1\<rparr> = Inr 1"
    by (simp add: get_rate_def)
  from match_count_monotone [OF a b c] a b c d e show ?thesis by simp
qed

section \<open>Which timestamps are boundaries\<close>

lemma contiguous_sorted:
  "contiguous t \<Longrightarrow> t \<noteq> [] \<Longrightarrow> sorted_wrt (<) (seg_start (hd t) # map seg_end t)"
proof (induction t rule: contiguous.induct)
  case 1
  then show ?case by simp
next
  case (2 s)
  then show ?case by simp
next
  case (3 s s' t)
  then have IH: "sorted_wrt (<) (seg_start s' # map seg_end (s' # t))" by simp
  from 3 have s: "seg_start s < seg_end s" "seg_end s = seg_start s'" by simp_all
  from IH have "\<forall>y\<in>set (map seg_end (s' # t)). seg_start s' < y" by simp
  with s have "\<forall>y\<in>set (map seg_end (s' # t)). seg_start s < y \<and> seg_end s < y" by auto
  with IH s show ?case by simp
qed

lemma contiguous_endpoints_set:
  "contiguous t \<Longrightarrow> t \<noteq> [] \<Longrightarrow>
     set (concat (map (\<lambda>s. [seg_start s, seg_end s]) t)) = set (seg_start (hd t) # map seg_end t)"
proof (induction t rule: contiguous.induct)
  case 1
  then show ?case by simp
next
  case (2 s)
  then show ?case by simp
next
  case (3 s s' t)
  then show ?case by auto
qed

lemma contiguous_endpoints:
  assumes "contiguous t" and "t \<noteq> []"
  shows "sort (remdups (concat (map (\<lambda>s. [seg_start s, seg_end s]) t))) =
           seg_start (hd t) # map seg_end t"
proof (rule sorted_distinct_set_unique)
  let ?L = "seg_start (hd t) # map seg_end t"
  have strict: "sorted_wrt (<) ?L" by (rule contiguous_sorted [OF assms])
  show "sorted (sort (remdups (concat (map (\<lambda>s. [seg_start s, seg_end s]) t))))" by simp
  show "distinct (sort (remdups (concat (map (\<lambda>s. [seg_start s, seg_end s]) t))))" by simp
  show "sorted ?L" using strict by (simp only: strict_sorted_iff)
  show "distinct ?L" using strict by (simp only: strict_sorted_iff)
  show "set (sort (remdups (concat (map (\<lambda>s. [seg_start s, seg_end s]) t)))) = set ?L"
    using contiguous_endpoints_set [OF assms] by simp
qed

lemma contiguous_boundaries:
  assumes "contiguous t"
  shows "boundaries t = spec_interior_endpoints t"
proof (cases "t = []")
  case True
  then show ?thesis by (simp add: boundaries_def spec_interior_endpoints_def)
next
  case False
  then show ?thesis
    by (simp add: boundaries_def spec_interior_endpoints_def contiguous_endpoints [OF assms False])
qed

text \<open>
  Claim C3, as amended. The boundary sequence of a structure is the end of each of its
  segments but the last, in the order of the timeline, so there is one boundary less than
  there are segments, and the boundary count of the Detail Record is the number of
  hypothesis segments minus one. For a contiguous structure (every segment non-empty and
  starting where the one before it ends) this sequence is exactly all interval endpoints
  except the very first start and the very last end, in increasing time order.
\<close>

theorem boundaries_are_segment_ends:
  "boundaries t = map seg_end (butlast t) \<and> length (boundaries t) = length t - 1
   \<and> (contiguous t \<longrightarrow> boundaries t = spec_interior_endpoints t)
   \<and> (get_details tolerance reference hypothesis = Inr detail \<longrightarrow>
        PR_BOUNDARIES detail = int (length (as_timeline hypothesis)) - 1)"
  using get_details_Inr(1) [of tolerance reference hypothesis detail]
  by (simp add: contiguous_boundaries) (simp add: boundaries_def map_butlast)

theorem boundaries_are_segment_ends_witness:
  "contiguous (as_timeline hypothesis_4)
   \<and> boundaries (as_timeline hypothesis_4) = [1, 2, 3]
   \<and> spec_interior_endpoints (as_timeline hypothesis_4) = [1, 2, 3]
   \<and> get_details 0 reference_3 hypothesis_4 = Inr \<lparr>PR_MATCHES = 2, PR_BOUNDARIES = 3\<rparr>
   \<and> PR_BOUNDARIES \<lparr>PR_MATCHES = 2, PR_BOUNDARIES = 3\<rparr>
        = int (length (as_timeline hypothesis_4)) - 1"
proof -
  have a: "contiguous (as_timeline hypothesis_4)" by code_simp
  have b: "boundaries (as_timeline hypothesis_4) = [1, 2, 3]" by code_simp
  have c: "get_details 0 reference_3 hypothesis_4 = Inr \<lparr>PR_MATCHES = 2, PR_BOUNDARIES = 3\<rparr>"
    by code_simp
  note T = boundaries_are_segment_ends [of "as_timeline hypothesis_4" 0 reference_3 hypothesis_4
      "\<lparr>PR_MATCHES = 2, PR_BOUNDARIES = 3\<rparr>"]
  from T a have d: "boundaries (as_timeline hypothesis_4) =
      spec_interior_endpoints (as_timeline hypothesis_4)" by blast
  from T c have e: "PR_BOUNDARIES \<lparr>PR_MATCHES = 2, PR_BOUNDARIES = 3\<rparr>
        = int (length (as_timeline hypothesis_4)) - 1" by blast
  from d b have f: "spec_interior_endpoints (as_timeline hypothesis_4) = [1, 2, 3]" by simp
  from a b f c e show ?thesis by blast
qed

text \<open>
  Claim C3 as stated fails on a structure with a gap: for \<open>[0,1], [2,3]\<close> the only
  boundary of the code is \<open>1\<close> and the boundary count is 1, while the interior endpoints
  are \<open>1\<close> and \<open>2\<close>: the start \<open>2\<close>, which is no segment's end, is not a boundary.
\<close>

theorem gapped_boundaries_counterexample:
  "boundaries (as_timeline gapped_2) = [1]
   \<and> spec_interior_endpoints (as_timeline gapped_2) = [1, 2]
   \<and> get_details 0 reference_3 gapped_2 = Inr \<lparr>PR_MATCHES = 1, PR_BOUNDARIES = 1\<rparr>"
proof -
  have "boundaries (as_timeline gapped_2) = [1]" by code_simp
  moreover have "spec_interior_endpoints (as_timeline gapped_2) = [1, 2]" by code_simp
  moreover have "get_details 0 reference_3 gapped_2 = Inr \<lparr>PR_MATCHES = 1, PR_BOUNDARIES = 1\<rparr>"
    by code_simp
  ultimately show ?thesis by blast
qed

section \<open>Claims on coverage and purity\<close>

lemma set_timeline_add: "set (timeline_add s t) = insert s (set t)"
  by (auto simp: timeline_add_def set_insort_key)

lemma set_fold_add_if:
  "set (fold (\<lambda>g t. if P g then timeline_add g t else t) gs t) = set t \<union> {g \<in> set gs. P g}"
  by (induction gs arbitrary: t) (auto simp: set_timeline_add)

lemma set_fill_gaps:
  "set (fill_gaps tolerance t) = set t \<union> {gap \<in> set (gaps t). duration gap < tolerance}"
  unfolding fill_gaps_def by (rule set_fold_add_if)

lemma overlap_commute: "overlap r h = overlap h r"
  by (simp add: overlap_def min.commute max.commute)

lemma sum_list_swap:
  fixes f :: "'a \<Rightarrow> 'b \<Rightarrow> real"
  shows "sum_list (map (\<lambda>x. sum_list (map (f x) ys)) xs) =
         sum_list (map (\<lambda>y. sum_list (map (\<lambda>x. f x y) xs)) ys)"
  by (induction xs) (simp_all add: sum_list_addf)

lemma process_total_swap:
  assumes "process rp hp = Inr dc" and "process hp rp = Inr dp"
  shows "PTY_CVG_TOTAL dc = PTY_CVG_TOTAL dp"
proof -
  have "PTY_CVG_TOTAL dc = sum_list (map (\<lambda>r. sum_list (map (overlap r) hp)) rp)"
    using assms(1) by (auto simp: process_def Let_def comp_def split: if_splits)
  also have "\<dots> = sum_list (map (\<lambda>h. sum_list (map (\<lambda>r. overlap r h) rp)) hp)"
    by (rule sum_list_swap)
  also have "\<dots> = sum_list (map (\<lambda>h. sum_list (map (overlap h) rp)) hp)"
    by (simp add: overlap_commute)
  also have "\<dots> = PTY_CVG_TOTAL dp"
    using assms(2) by (auto simp: process_def Let_def comp_def split: if_splits)
  finally show ?thesis .
qed

text \<open>
  Claim C4, as amended. SegmentationPurity preprocesses the pair exactly as
  SegmentationCoverage does (gap filling and coverage region taken from the reference) and
  applies the Co-occurrence Scorer to the same two partitions, swapped; the total duration
  of both Detail Records is the same. The coverage rate of \<open>(R, H)\<close> equals the purity rate
  of \<open>(H, R)\<close> whenever preprocessing \<open>(H, R)\<close> yields the two partitions of \<open>(R, H)\<close> in
  swapped order.
\<close>

theorem purity_swaps_partitions:
  "(preprocess tolerance R H = Inr (rp, hp) \<longrightarrow>
      coverage_get_details tolerance R H = process rp hp \<and>
      purity_get_details tolerance R H = process hp rp)
   \<and> (coverage_get_details tolerance R H = Inr dc \<and> purity_get_details tolerance R H = Inr dp
        \<longrightarrow> PTY_CVG_TOTAL dc = PTY_CVG_TOTAL dp)
   \<and> (preprocess tolerance R H = Inr (rp, hp) \<and> preprocess tolerance H R = Inr (hp, rp) \<longrightarrow>
        segmentation_coverage tolerance R H = segmentation_purity tolerance H R)"
proof -
  have a: "coverage_get_details tolerance R H = process rp hp \<and>
      purity_get_details tolerance R H = process hp rp"
    if "preprocess tolerance R H = Inr (rp, hp)"
    using that by (simp add: coverage_get_details_def purity_get_details_def)
  have b: "PTY_CVG_TOTAL dc = PTY_CVG_TOTAL dp"
    if "coverage_get_details tolerance R H = Inr dc" "purity_get_details tolerance R H = Inr dp"
  proof (cases "preprocess tolerance R H")
    case (Inl e)
    with that show ?thesis by (simp add: coverage_get_details_def)
  next
    case (Inr p)
    obtain r h where p: "p = (r, h)" by (cases p)
    from that Inr p have "process r h = Inr dc" "process h r = Inr dp"
      by (simp_all add: coverage_get_details_def purity_get_details_def)
    then show ?thesis by (rule process_total_swap)
  qed
  have c: "segmentation_coverage tolerance R H = segmentation_purity tolerance H R"
    if "preprocess tolerance R H = Inr (rp, hp)" "preprocess tolerance H R = Inr (hp, rp)"
    using that
    by (simp add: segmentation_coverage_def segmentation_purity_def coverage_get_details_def
        purity_get_details_def)
  from a b c show ?thesis by blast
qed

theorem purity_swaps_partitions_witness:
  "preprocess (1 / 2) halves_2 whole_2 = Inr ([seg 0 1, seg 1 2], [seg 0 2])
   \<and> preprocess (1 / 2) whole_2 halves_2 = Inr ([seg 0 2], [seg 0 1, seg 1 2])
   \<and> coverage_get_details (1 / 2) halves_2 whole_2 = process [seg 0 1, seg 1 2] [seg 0 2]
   \<and> purity_get_details (1 / 2) halves_2 whole_2 = process [seg 0 2] [seg 0 1, seg 1 2]
   \<and> coverage_get_details (1 / 2) halves_2 whole_2 = Inr \<lparr>PTY_CVG_TOTAL = 2, PTY_CVG_INTER = 2\<rparr>
   \<and> purity_get_details (1 / 2) halves_2 whole_2 = Inr \<lparr>PTY_CVG_TOTAL = 2, PTY_CVG_INTER = 1\<rparr>
   \<and> segmentation_coverage (1 / 2) halves_2 whole_2 = segmentation_purity (1 / 2) whole_2 halves_2"
proof -
  have a: "preprocess (1 / 2) halves_2 whole_2 = Inr ([seg 0 1, seg 1 2], [seg 0 2])"
    by code_simp
  have b: "preprocess (1 / 2) whole_2 halves_2 = Inr ([seg 0 2], [seg 0 1, seg 1 2])"
    by code_simp
  have c: "coverage_get_details (1 / 2) halves_2 whole_2 =
      Inr \<lparr>PTY_CVG_TOTAL = 2, PTY_CVG_INTER = 2\<rparr>"
    by code_simp
  have d: "purity_get_details (1 / 2) halves_2 whole_2 =
      Inr \<lparr>PTY_CVG_TOTAL = 2, PTY_CVG_INTER = 1\<rparr>"
    by code_simp
  note T = purity_swaps_partitions [of "1 / 2" halves_2 whole_2 "[seg 0 1, seg 1 2]" "[seg 0 2]"
      "\<lparr>PTY_CVG_TOTAL = 2, PTY_CVG_INTER = 2\<rparr>" "\<lparr>PTY_CVG_TOTAL = 2, PTY_CVG_INTER = 1\<rparr>"]
  from T a have e: "coverage_get_details (1 / 2) halves_2 whole_2 = process [seg 0 1, seg 1 2] [seg 0 2]
      \<and> purity_get_details (1 / 2) halves_2 whole_2 = process [seg 0 2] [seg 0 1, seg 1 2]"
    by blast
  from T a b have f: "segmentation_coverage (1 / 2) halves_2 whole_2 =
      segmentation_purity (1 / 2) whole_2 halves_2"
    by blast
  from a b c d e f show ?thesis by blast
qed

text \<open>
  Claim C4 as stated fails: preprocessing depends on which structure is the reference.
  With tolerance \<open>0.5\<close>, \<open>R\<close> the interval \<open>[0,4]\<close> under one label and \<open>H\<close> the
  intervals \<open>[0,1]\<close> and \<open>[3,4]\<close> under two labels, the coverage of \<open>(R, H)\<close> is \<open>1/2\<close>
  (the region is \<open>[0,4]\<close> and the gap of \<open>H\<close> is an atomic interval) and the purity of
  \<open>(H, R)\<close> is \<open>1\<close> (the region is \<open>[0,1] \<union> [3,4]\<close>).
\<close>

theorem coverage_purity_duality_counterexample:
  "segmentation_coverage (1 / 2) whole_4 ends_4 = Inr (1 / 2)
   \<and> segmentation_purity (1 / 2) ends_4 whole_4 = Inr 1
   \<and> preprocess (1 / 2) whole_4 ends_4 = Inr ([seg 0 4], [seg 0 1, seg 1 3, seg 3 4])
   \<and> preprocess (1 / 2) ends_4 whole_4 = Inr ([seg 0 1, seg 3 4], [seg 0 1, seg 3 4])"
proof -
  have "segmentation_coverage (1 / 2) whole_4 ends_4 = Inr (1 / 2)" by code_simp
  moreover have "segmentation_purity (1 / 2) ends_4 whole_4 = Inr 1" by code_simp
  moreover have "preprocess (1 / 2) whole_4 ends_4 = Inr ([seg 0 4], [seg 0 1, seg 1 3, seg 3 4])"
    by code_simp
  moreover have "preprocess (1 / 2) ends_4 whole_4 = Inr ([seg 0 1, seg 3 4], [seg 0 1, seg 3 4])"
    by code_simp
  ultimately show ?thesis by blast
qed

text \<open>
  Claim C10. The gap-filling loop of \<^verbatim>\<open>_preprocess\<close> adds to the timeline of a label
  exactly its gaps of duration strictly less than the tolerance. With tolerance \<open>0.5\<close>,
  the intervals \<open>[0,1]\<close> and \<open>[1.2,2]\<close> under one label have the gap \<open>[1,1.2]\<close>, which is
  added, and the filled reference is the single interval \<open>[0,2]\<close>, the reference partition
  as well; the intervals \<open>[0,1]\<close> and \<open>[1.5,2]\<close> have a gap of duration equal to the
  tolerance, which is not added, and the filled reference keeps both intervals.
\<close>

theorem gap_filler_strict:
  "set (fill_gaps tolerance timeline) =
     set timeline \<union> {gap \<in> set (gaps timeline). duration gap < tolerance}
   \<and> gaps (label_timeline short_gap ''a'') = [seg 1 (12 / 10)]
   \<and> fill_gaps (1 / 2) (label_timeline short_gap ''a'') = [seg 0 1, seg 1 (12 / 10), seg (12 / 10) 2]
   \<and> filled (1 / 2) short_gap = [seg 0 2]
   \<and> preprocess (1 / 2) (Annotation short_gap) (Annotation short_gap) =
        Inr ([seg 0 2], [seg 0 1, seg 1 (12 / 10), seg (12 / 10) 2])
   \<and> gaps (label_timeline half_gap ''a'') = [seg 1 (3 / 2)]
   \<and> duration (seg 1 (3 / 2)) = 1 / 2
   \<and> fill_gaps (1 / 2) (label_timeline half_gap ''a'') = [seg 0 1, seg (3 / 2) 2]
   \<and> filled (1 / 2) half_gap = [seg 0 1, seg (3 / 2) 2]"
proof -
  have "gaps (label_timeline short_gap ''a'') = [seg 1 (12 / 10)]" by code_simp
  moreover have "fill_gaps (1 / 2) (label_timeline short_gap ''a'') =
      [seg 0 1, seg 1 (12 / 10), seg (12 / 10) 2]" by code_simp
  moreover have "filled (1 / 2) short_gap = [seg 0 2]" by code_simp
  moreover have "preprocess (1 / 2) (Annotation short_gap) (Annotation short_gap) =
        Inr ([seg 0 2], [seg 0 1, seg 1 (12 / 10), seg (12 / 10) 2])" by code_simp
  moreover have "gaps (label_timeline half_gap ''a'') = [seg 1 (3 / 2)]" by code_simp
  moreover have "duration (seg 1 (3 / 2)) = 1 / 2" by code_simp
  moreover have "fill_gaps (1 / 2) (label_timeline half_gap ''a'') = [seg 0 1, seg (3 / 2) 2]"
    by code_simp
  moreover have "filled (1 / 2) half_gap = [seg 0 1, seg (3 / 2) 2]" by code_simp
  ultimately show ?thesis using set_fill_gaps [of tolerance timeline] by blast
qed

end
